theory Spec2Isabelle
  imports Complex_Main "HOL-Library.Multiset"
begin

section \<open>The video agent's filter-graph compiler\<close>

text \<open>
  The development embeds \<^verbatim>\<open>buildFfmpegArgs\<close> of
  \<^verbatim>\<open>components/video-agent.tsx\<close>, the function that lowers a plan of
  editing operations to the argument list handed to FFmpeg. The tempo clamper and
  the prompt parser that the component imports from \<^verbatim>\<open>lib/agent\<close> are not among the
  sources; they are modelled from the specification, in subsections of their own.

  Numbers: a JavaScript number is modelled as a \<^typ>\<open>real\<close>, that is a finite
  value with exact arithmetic. Rounding of IEEE doubles, \<^verbatim>\<open>NaN\<close> and negative zero
  are outside the model. The one place where the source produces an infinity from finite
  input, \<^verbatim>\<open>1 / factor\<close> at \<open>factor = 0\<close>, is written out, and so is the exponent
  notation that \<^verbatim>\<open>toFixed\<close> switches to from \<open>10\<^sup>2\<^sup>1\<close> on.
\<close>

subsection \<open>Data model\<close>

text \<open>
  Modelled from the spec: the types \<^verbatim>\<open>Operation\<close> and \<^verbatim>\<open>AgentPlan\<close> are
  declared in \<^verbatim>\<open>lib/agent\<close>, which is not among the sources. The variants are those
  of the spec's data model; they agree with every field the compiler reads
  (\<^verbatim>\<open>kind\<close>, \<^verbatim>\<open>start\<close>, \<^verbatim>\<open>end\<close>, \<^verbatim>\<open>factor\<close>, \<^verbatim>\<open>value\<close>, \<^verbatim>\<open>mode\<close>).
\<close>

datatype crop_mode = Square | PortraitFill

datatype operation =
    Trim real "real option"
  | Grayscale
  | Speed real
  | Mute
  | Brightness real
  | Crop crop_mode

datatype output_format = Mp4 | Gif

record AgentPlan =
  operations :: "operation list"
  outputExtension :: output_format

subsection \<open>Library functions of the host language\<close>

text \<open>\<^verbatim>\<open>Array.prototype.join\<close> on an array of strings.\<close>

fun join :: "string \<Rightarrow> string list \<Rightarrow> string" where
  "join sep [] = []"
| "join sep [x] = x"
| "join sep (x # y # ys) = x @ sep @ join sep (y # ys)"

definition digitChar :: "nat \<Rightarrow> char" where
  "digitChar n = ''0123456789'' ! (n mod 10)"

text \<open>The decimal representation of a natural number, \<open>0\<close> being \<^verbatim>\<open>"0"\<close>.\<close>

fun digits :: "nat \<Rightarrow> string" where
  "digits n = (if n < 10 then [digitChar n] else digits (n div 10) @ [digitChar (n mod 10)])"

declare digits.simps [simp del]

text \<open>
  \<^verbatim>\<open>Number::toString\<close> on a number from \<open>10\<^sup>2\<^sup>1\<close> on, where ECMAScript uses exponent
  notation: the significant digits (no trailing zeros), a point after the first of them
  when there are several, and the exponent \<open>n - 1\<close> for a number of \<open>n\<close> digits. A JavaScript
  number of this size is an integer. JavaScript prints the shortest digits that read back
  as the same double, the model the digits of the exact value; they agree on the powers of
  ten, \<^verbatim>\<open>1e+21\<close> for \<open>10\<^sup>2\<^sup>1\<close>.
\<close>

definition exponentForm :: "real \<Rightarrow> string" where
  "exponentForm x =
     (let ds = digits (nat \<lfloor>x\<rfloor>);
          sig = rev (dropWhile (\<lambda>d. d = CHR ''0'') (rev ds));
          e = length ds - 1
      in (case sig of
            [] \<Rightarrow> ''0''
          | d # rest \<Rightarrow> if rest = [] then [d] else d # ''.'' @ rest)
         @ ''e+'' @ digits e)"

text \<open>
  \<^verbatim>\<open>Number.prototype.toFixed(f)\<close> as ECMAScript defines it: the sign is split off; from
  \<open>10\<^sup>2\<^sup>1\<close> on the result is that of \<^verbatim>\<open>toString\<close>; below, \<open>n\<close> is the integer nearest to
  \<open>x \<sqdot> 10\<^sup>f\<close> (the larger one on a tie), its digits are padded with zeros to \<open>f + 1\<close>
  places and the point is put before the last \<open>f\<close> of them.
\<close>

definition toFixed :: "real \<Rightarrow> nat \<Rightarrow> string" where
  "toFixed x f =
     (let s = (if x < 0 then ''-'' else '''');
          n = nat \<lfloor>\<bar>x\<bar> * 10 ^ f + 1 / 2\<rfloor>;
          m = digits n;
          k = length m;
          z = (if k \<le> f then replicate (f + 1 - k) (CHR ''0'') @ m else m);
          a = take (length z - f) z;
          b = drop (length z - f) z
      in if 10 ^ 21 \<le> \<bar>x\<bar> then s @ exponentForm \<bar>x\<bar>
         else if f = 0 then s @ z
         else s @ a @ ''.'' @ b)"

subsection \<open>The compiler\<close>

text \<open>The predicate of \<^verbatim>\<open>operations.find\<close>: \<^verbatim>\<open>op.kind === 'trim'\<close>.\<close>

fun isTrim :: "operation \<Rightarrow> bool" where
  "isTrim (Trim s e) = True"
| "isTrim _ = False"

text \<open>
  The optional reads \<^verbatim>\<open>trimOperation?.start\<close> and \<^verbatim>\<open>trimOperation?.end\<close>:
  \<open>None\<close> is \<^verbatim>\<open>undefined\<close>, from a missing trim or a trim without an end.
\<close>

fun trimStart :: "operation option \<Rightarrow> real option" where
  "trimStart (Some (Trim s e)) = Some s"
| "trimStart _ = None"

fun trimEnd :: "operation option \<Rightarrow> real option" where
  "trimEnd (Some (Trim s e)) = e"
| "trimEnd _ = None"

text \<open>
  The three locals the \<^verbatim>\<open>forEach\<close> loop mutates: \<^verbatim>\<open>videoFilters\<close>,
  \<^verbatim>\<open>audioFilters\<close> and \<^verbatim>\<open>disableAudio\<close>.
\<close>

record lowering =
  videoFilters :: "string list"
  audioFilters :: "string list"
  disableAudio :: bool

definition initial :: lowering where
  "initial = \<lparr>videoFilters = [], audioFilters = [], disableAudio = False\<rparr>"

text \<open>
  The value of \<^verbatim>\<open>(1 / factor).toFixed(4)\<close>. In JavaScript \<^verbatim>\<open>1 / 0\<close> is
  \<^verbatim>\<open>Infinity\<close>, which \<^verbatim>\<open>toFixed\<close> renders by name; HOL's \<open>1 / 0 = 0\<close> must not
  stand in for it.
\<close>

definition ptsScale :: "real \<Rightarrow> string" where
  "ptsScale factor = (if factor = 0 then ''Infinity'' else toFixed (1 / factor) 4)"

text \<open>
  The body of the \<^verbatim>\<open>forEach\<close> callback, one equation per \<^verbatim>\<open>case\<close> of the
  \<^verbatim>\<open>switch\<close>; a trim falls to \<^verbatim>\<open>default\<close>. The helper
  \<^verbatim>\<open>clampAudioTempoChain\<close> is imported from \<^verbatim>\<open>lib/agent\<close>, which is not among
  the sources, so it is a parameter: it gives, for a factor, the chain's elements as the
  strings that \<^verbatim>\<open>join\<close> sees. A parameter of a HOL function is total: that the helper
  returns for every factor it is called with is taken for granted here.
\<close>

fun lowerOp :: "(real \<Rightarrow> string list) \<Rightarrow> operation \<Rightarrow> lowering \<Rightarrow> lowering" where
  "lowerOp clampAudioTempoChain Grayscale st =
     st\<lparr>videoFilters := videoFilters st @ [''hue=s=0'']\<rparr>"
| "lowerOp clampAudioTempoChain (Speed factor) st =
     (let st1 = st\<lparr>videoFilters := videoFilters st @ [''setpts='' @ ptsScale factor @ ''*PTS'']\<rparr>;
          tempoChain = clampAudioTempoChain factor
      in if length tempoChain > 0
         then st1\<lparr>audioFilters := audioFilters st1 @ [join '','' tempoChain]\<rparr>
         else st1)"
| "lowerOp clampAudioTempoChain Mute st = st\<lparr>disableAudio := True\<rparr>"
| "lowerOp clampAudioTempoChain (Brightness v) st =
     st\<lparr>videoFilters := videoFilters st @ [''eq=brightness='' @ toFixed v 2]\<rparr>"
| "lowerOp clampAudioTempoChain (Crop mode) st =
     (if mode = Square
      then st\<lparr>videoFilters := videoFilters st @ [''crop=min(iw,ih):min(iw,ih)'']\<rparr>
      else st\<lparr>videoFilters := videoFilters st @
             [''scale=720:-2:force_original_aspect_ratio=increase,crop=720:1280'']\<rparr>)"
| "lowerOp clampAudioTempoChain (Trim s e) st = st"

text \<open>
  \<^verbatim>\<open>buildFfmpegArgs\<close>. The array \<^verbatim>\<open>args\<close> grows by \<^verbatim>\<open>push\<close> only, so each
  block of the source contributes one segment, in the source's order.
\<close>

definition buildFfmpegArgs ::
  "(real \<Rightarrow> string list) \<Rightarrow> operation list \<Rightarrow> output_format \<Rightarrow> string \<Rightarrow> string \<Rightarrow> string list"
where
  "buildFfmpegArgs clampAudioTempoChain ops format input output =
     (let trimOperation = find isTrim ops;
          start = (case trimStart trimOperation of Some s \<Rightarrow> s | None \<Rightarrow> 0);
          hasStart = (case trimStart trimOperation of Some s \<Rightarrow> s > 0 | None \<Rightarrow> False);
          hasEnd = (case trimEnd trimOperation of Some e \<Rightarrow> e > 0 | None \<Rightarrow> False);
          args1 = (if hasStart then [''-ss'', toFixed start 2] else []);
          args2 = args1 @ [''-i'', input];
          args3 = (if hasEnd
                   then (let duration =
                               max 0 ((case trimEnd trimOperation of Some e \<Rightarrow> e | None \<Rightarrow> 0) - start)
                         in if duration > 0 then args2 @ [''-t'', toFixed duration 2] else args2)
                   else args2);
          st = fold (lowerOp clampAudioTempoChain) ops initial;
          vf = (if format = Gif then videoFilters st @ [''fps=12''] else videoFilters st);
          args4 = (if length vf > 0 then args3 @ [''-vf'', join '','' vf] else args3);
          args5 = (if disableAudio st then args4 @ [''-an'']
                   else if length (audioFilters st) > 0
                        then args4 @ [''-af'', join '','' (audioFilters st)]
                        else args4);
          args6 = (if format = Mp4
                   then args5 @ [''-c:v'', ''libx264'', ''-preset'', ''veryfast'', ''-pix_fmt'', ''yuv420p'']
                          @ (if \<not> disableAudio st then [''-c:a'', ''aac''] else [])
                          @ [''-movflags'', ''faststart'']
                   else args5 @ [''-loop'', ''0''])
      in args6 @ [output])"

text \<open>
  The segments of the argument list, one for each block of \<^verbatim>\<open>buildFfmpegArgs\<close> that
  pushes conditionally. They are a device of the proofs: lemma \<open>buildFfmpegArgs_segments\<close>
  shows that the function above is their concatenation around the input and output names.
\<close>

definition seekArgs :: "operation option \<Rightarrow> string list" where
  "seekArgs trimOperation =
     (case trimStart trimOperation of
        Some s \<Rightarrow> if 0 < s then [''-ss'', toFixed s 2] else []
      | None \<Rightarrow> [])"

definition durationArgs :: "operation option \<Rightarrow> string list" where
  "durationArgs trimOperation =
     (case trimEnd trimOperation of
        Some e \<Rightarrow>
          (let start = (case trimStart trimOperation of Some s \<Rightarrow> s | None \<Rightarrow> 0)
           in if 0 < e \<and> start < e then [''-t'', toFixed (e - start) 2] else [])
      | None \<Rightarrow> [])"

definition videoArgs :: "output_format \<Rightarrow> lowering \<Rightarrow> string list" where
  "videoArgs format st =
     (let vf = (if format = Gif then videoFilters st @ [''fps=12''] else videoFilters st)
      in if vf = [] then [] else [''-vf'', join '','' vf])"

definition audioArgs :: "lowering \<Rightarrow> string list" where
  "audioArgs st =
     (if disableAudio st then [''-an'']
      else if audioFilters st = [] then []
      else [''-af'', join '','' (audioFilters st)])"

definition formatArgs :: "output_format \<Rightarrow> lowering \<Rightarrow> string list" where
  "formatArgs format st =
     (if format = Mp4
      then [''-c:v'', ''libx264'', ''-preset'', ''veryfast'', ''-pix_fmt'', ''yuv420p'']
             @ (if disableAudio st then [] else [''-c:a'', ''aac''])
             @ [''-movflags'', ''faststart'']
      else [''-loop'', ''0''])"

subsection \<open>The tempo chain\<close>

text \<open>
  Modelled from the spec: \<^verbatim>\<open>clampAudioTempoChain\<close> is defined in \<^verbatim>\<open>lib/agent\<close>,
  which is not among the sources; the definitions follow the algorithm of the spec's
  section 4.3. A loop runs "until the remainder falls within \<open>[0.5, 2.0]\<close>"; it is a
  partial function, \<open>None\<close> standing for a loop that never ends. The remainder is
  what is left of the factor once the appended elements are taken out of it: after
  appending \<open>2.0\<close> it is \<open>r / 2.0\<close>, after appending \<open>0.5\<close> it is \<open>r / 0.5\<close>, as the
  required product of the chain fixes it.
\<close>

partial_function (option) divideDown :: "real \<Rightarrow> real list option" where
  "divideDown r =
     (if 1 / 2 \<le> r \<and> r \<le> 2 then Some [r]
      else Option.bind (divideDown (r / 2)) (\<lambda>chain. Some (2 # chain)))"

text \<open>
  Modelled from the spec: the loop for a factor below \<open>0.5\<close>, which appends \<open>0.5\<close> until
  the remainder is within range. On a factor that is not positive it never ends.
\<close>

partial_function (option) scaleUp :: "real \<Rightarrow> real list option" where
  "scaleUp r =
     (if 1 / 2 \<le> r \<and> r \<le> 2 then Some [r]
      else Option.bind (scaleUp (r / (1 / 2))) (\<lambda>chain. Some (1 / 2 # chain)))"

text \<open>
  Modelled from the spec: \<^verbatim>\<open>clampTempo(factor)\<close>, the four cases of section 4.3 in the
  order of the spec.
\<close>

definition clampTempo :: "real \<Rightarrow> real list option" where
  "clampTempo factor =
     (if 1 / 2 \<le> factor \<and> factor \<le> 2 \<and> factor \<noteq> 1 then Some [factor]
      else if factor = 1 then Some []
      else if 2 < factor then divideDown factor
      else scaleUp factor)"

text \<open>
  Modelled from the spec: one helper that fits the parameter of \<open>lowerOp\<close>, for running
  the compiler on concrete plans. Section 4.4 has each chain element invoke the tempo
  primitive once; the primitive's name and the number format are not given there, FFmpeg's
  \<^verbatim>\<open>atempo\<close> and the four places of the neighbouring \<^verbatim>\<open>setpts\<close> filter are taken. Where
  the clamper does not return, on the factors that the spec excludes, the sample has no
  element. The theorems about \<open>buildFfmpegArgs\<close> hold for every helper.
\<close>

definition atempoChain :: "real \<Rightarrow> string list" where
  "atempoChain factor =
     (case clampTempo factor of
        Some chain \<Rightarrow> map (\<lambda>t. ''atempo='' @ toFixed t 4) chain
      | None \<Rightarrow> [])"

subsection \<open>The prompt parser and the plan assembler\<close>

text \<open>
  Modelled from the spec: \<^verbatim>\<open>planEditingSteps\<close> is defined in \<^verbatim>\<open>lib/agent\<close>, which
  is not among the sources. Following sections 2, 4.1, 4.2, 7 and 9 of the spec, the parser
  scans the prompt with a table of patterns, each with its extractor, tried independently of
  one another; the assembler drops degenerate operations, keeps the first mention of each
  kind and puts the rest in canonical order; the output format is \<open>Gif\<close> exactly when the
  prompt mentions "gif", in any case.
\<close>

text \<open>
  Modelled from the spec: a pattern with its extractor, as it is tried at one position of
  the prompt. It is given the text from that position on and yields the extracted value
  when the pattern matches there.
\<close>

type_synonym 'a matcher = "string \<Rightarrow> 'a option"

text \<open>
  Modelled from the spec: matching is case-insensitive, so the prompt is lowered (the ASCII
  letters) before it is scanned.
\<close>

definition toLowerCase :: "string \<Rightarrow> string" where
  "toLowerCase text =
     map (\<lambda>c. case map_of (zip ''ABCDEFGHIJKLMNOPQRSTUVWXYZ'' ''abcdefghijklmnopqrstuvwxyz'') c of
                 Some l \<Rightarrow> l | None \<Rightarrow> c) text"

text \<open>
  Modelled from the spec: the pattern "any of these keywords", which matches at a position
  where one of the keywords starts.
\<close>

definition keywordAt :: "string list \<Rightarrow> 'a \<Rightarrow> 'a matcher" where
  "keywordAt keys x text = (if list_ex (\<lambda>k. take (length k) text = k) keys then Some x else None)"

text \<open>
  Modelled from the spec: the scan. Every pattern of the table is tried at every position of
  the text, from left to right; the matches are listed in the order of their mention.
\<close>

fun extractAll :: "'a matcher list \<Rightarrow> string \<Rightarrow> 'a list" where
  "extractAll ms [] = []"
| "extractAll ms (c # cs) = List.map_filter (\<lambda>m. m (c # cs)) ms @ extractAll ms cs"

text \<open>
  Modelled from the spec: the patterns that section 4.1 gives by their exact keywords. The
  patterns for trim, speed and brightness are given there by example phrases only; they are
  further entries of a table.
\<close>

definition keywordMatchers :: "operation matcher list" where
  "keywordMatchers =
     [keywordAt [''mute'', ''remove audio'', ''no audio'', ''silent''] Mute,
      keywordAt [''square''] (Crop Square),
      keywordAt [''portrait'', ''9:16'', ''vertical''] (Crop PortraitFill),
      keywordAt [''black and white'', ''grayscale'', ''greyscale'', ''monochrome''] Grayscale]"

text \<open>
  Modelled from the spec: a clause of a prompt is a stretch of it between commas, as in the
  default prompt. A pattern is bound to clauses when it never reaches across a comma: whether
  and what it matches at a position is decided by the text up to the next comma, and it does
  not match the empty text. Patterns made of words and numbers are of this kind (lemmas
  \<open>keywordAt_clauseBound\<close> and \<open>numberAfter_clauseBound\<close>).
\<close>

definition clauseBound :: "'a matcher \<Rightarrow> bool" where
  "clauseBound m = (m [] = None \<and> (\<forall>a b. m (a @ '','' @ b) = m a))"

text \<open>
  Modelled from the spec: the reading of a number in a phrase such as "the first 5 seconds"
  or "to 1.2x", digits with an optional point and further digits.
\<close>

definition isNumberChar :: "char \<Rightarrow> bool" where
  "isNumberChar ch = (ch \<in> set ''0123456789.'')"

definition readDigits :: "string \<Rightarrow> nat" where
  "readDigits t = foldl (\<lambda>n ch. 10 * n + length (takeWhile (\<lambda>d. d \<noteq> ch) ''0123456789'')) 0 t"

definition readDecimal :: "string \<Rightarrow> real option" where
  "readDecimal t =
     (let whole = takeWhile (\<lambda>ch. ch \<noteq> CHR ''.'') t;
          fraction = drop 1 (dropWhile (\<lambda>ch. ch \<noteq> CHR ''.'') t)
      in if whole = [] \<or> CHR ''.'' \<in> set fraction then None
         else Some (real (readDigits whole) + real (readDigits fraction) / 10 ^ length fraction))"

text \<open>
  Modelled from the spec: the pattern "these words, a number, this unit", which matches
  where the words start and extracts from the number; a number that cannot be read gives no
  match (section 7 (b), malformed phrases are dropped).
\<close>

definition numberAfter :: "string \<Rightarrow> string \<Rightarrow> (real \<Rightarrow> 'a) \<Rightarrow> 'a matcher" where
  "numberAfter key unit mk text =
     (if take (length key) text = key
      then (let rest = drop (length key) text;
                number = takeWhile isNumberChar rest;
                after = dropWhile isNumberChar rest
            in if take (length unit) after = unit then map_option mk (readDecimal number) else None)
      else None)"

text \<open>
  Modelled from the spec: two of the example phrases of section 4.1, "trim the first N
  seconds" and "speed up to 1.2x", as patterns beside the keyword patterns. They are the
  patterns that the end-to-end example of section 8 needs.
\<close>

definition examplePatterns :: "operation matcher list" where
  "examplePatterns =
     [numberAfter ''first '' '' second'' (\<lambda>n. Trim n None), numberAfter ''to '' ''x'' Speed]
       @ keywordMatchers"

text \<open>
  The constant \<^verbatim>\<open>defaultPrompt\<close> of the component, which is the prompt of the spec's
  end-to-end example.
\<close>

definition defaultPrompt :: string where
  "defaultPrompt =
     ''Trim the first 5 seconds, convert to black and white, speed up to 1.2x, and mute the audio.''"

text \<open>
  Modelled from the spec: section 7 (c), an end not after the start and a factor that is not
  positive are degenerate and never reach the plan.
\<close>

fun wellFormed :: "operation \<Rightarrow> bool" where
  "wellFormed (Trim s (Some e)) = (s < e)"
| "wellFormed (Speed factor) = (0 < factor)"
| "wellFormed _ = True"

text \<open>
  Modelled from the spec: the canonical order of section 4.2, trim first, then grayscale,
  speed, brightness, crop, mute.
\<close>

fun rank :: "operation \<Rightarrow> nat" where
  "rank (Trim s e) = 0"
| "rank Grayscale = 1"
| "rank (Speed factor) = 2"
| "rank (Brightness v) = 3"
| "rank (Crop mode) = 4"
| "rank Mute = 5"

text \<open>
  Modelled from the spec: section 4.1, of several operations of one kind the first survives.
\<close>

fun firstOfKind :: "operation list \<Rightarrow> operation list" where
  "firstOfKind [] = []"
| "firstOfKind (x # xs) = x # firstOfKind (filter (\<lambda>y. rank y \<noteq> rank x) xs)"

text \<open>
  Modelled from the spec: the plan assembler of section 4.2 and the parser's entry point
  \<^verbatim>\<open>planEditingSteps\<close>, which attaches the output format.
\<close>

definition assemble :: "operation list \<Rightarrow> operation list" where
  "assemble extracted = sort_key rank (firstOfKind (filter wellFormed extracted))"

definition planEditingSteps :: "operation matcher list \<Rightarrow> string \<Rightarrow> AgentPlan" where
  "planEditingSteps ms prompt =
     \<lparr>operations = assemble (extractAll ms (toLowerCase prompt)),
      outputExtension =
        (if extractAll [keywordAt [''gif''] Gif] (toLowerCase prompt) = [] then Mp4 else Gif)\<rparr>"

section \<open>Properties\<close>

subsection \<open>Evaluating the number formatting\<close>

lemma digits_small: "n < 10 \<Longrightarrow> digits n = [digitChar n]"
  by (subst digits.simps) simp

lemma digits_large: "10 \<le> n \<Longrightarrow> digits n = digits (n div 10) @ [digitChar (n mod 10)]"
  by (subst digits.simps) simp

lemmas toFixed_eval = toFixed_def exponentForm_def digits_small digits_large digitChar_def

lemma digits_nonempty: "digits n \<noteq> []"
  by (subst digits.simps) simp

lemma digitChar_nonzero: "0 < n \<Longrightarrow> n < 10 \<Longrightarrow> digitChar n \<noteq> CHR ''0''"
proof -
  assume "0 < n" "n < 10"
  then have "n \<in> {1, 2, 3, 4, 5, 6, 7, 8, 9}" by auto
  then show ?thesis by (auto simp: digitChar_def)
qed

lemma digits_nonzero: "0 < n \<Longrightarrow> \<exists>ch\<in>set (digits n). ch \<noteq> CHR ''0''"
proof (induction n rule: digits.induct)
  case (1 n)
  show ?case
  proof (cases "n < 10")
    case True
    with "1.prems" show ?thesis by (simp add: digits_small digitChar_nonzero)
  next
    case False
    then have "0 < n div 10" by simp
    with False "1.IH" have "\<exists>ch\<in>set (digits (n div 10)). ch \<noteq> CHR ''0''" by simp
    with False show ?thesis by (auto simp: digits_large)
  qed
qed

lemma toFixed_mark:
  "0 < f \<Longrightarrow> CHR ''.'' \<in> set (toFixed x f) \<or> CHR ''+'' \<in> set (toFixed x f)"
  by (simp add: toFixed_def exponentForm_def Let_def)


lemma toFixed_zero_iff:
  assumes "0 \<le> d"
  shows "(toFixed d 2 = ''0.00'') = (d < 1 / 200)"
proof (cases "d < 10 ^ 21")
  case small: True
  define n where "n = nat \<lfloor>\<bar>d\<bar> * 10 ^ 2 + 1 / 2\<rfloor>"
  define z where "z = (if length (digits n) \<le> 2
      then replicate (2 + 1 - length (digits n)) (CHR ''0'') @ digits n else digits n)"
  have shape: "toFixed d 2 = take (length z - 2) z @ ''.'' @ drop (length z - 2) z"
    using assms small by (simp add: toFixed_def Let_def z_def n_def)
  have len: "2 < length z"
    by (simp add: z_def)
  have n0: "(n = 0) = (d < 1 / 200)"
  proof -
    have "(n = 0) = (\<lfloor>d * 100 + 1 / 2\<rfloor> \<le> 0)"
      using assms by (simp add: n_def)
    also have "\<dots> = (d * 100 + 1 / 2 < 1)"
      by (simp add: floor_le_iff)
    finally show ?thesis by auto
  qed
  show ?thesis
  proof (cases "n = 0")
    case True
    then have "z = ''000''" by (simp add: z_def digits_small digitChar_def numeral_2_eq_2)
    with shape True n0 show ?thesis by simp
  next
    case False
    then obtain ch where ch: "ch \<in> set (digits n)" "ch \<noteq> CHR ''0''"
      using digits_nonzero [of n] by auto
    then have chz: "ch \<in> set z" by (auto simp: z_def)
    have "toFixed d 2 \<noteq> ''0.00''"
    proof
      assume eq: "toFixed d 2 = ''0.00''"
      have l: "length (take (length z - 2) z) = 1"
        using arg_cong [OF eq, of length] len by (simp add: shape)
      with eq shape have "take (length z - 2) z = ''0''" "drop (length z - 2) z = ''00''"
        by (cases "take (length z - 2) z"; simp)+
      then have "z = ''0'' @ ''00''"
        using append_take_drop_id [of "length z - 2" z] by simp
      with chz ch(2) show False by simp
    qed
    with False n0 show ?thesis by simp
  qed
next
  case False
  then have "CHR ''+'' \<in> set (toFixed d 2)"
    using assms by (simp add: toFixed_def exponentForm_def Let_def)
  then have "toFixed d 2 \<noteq> ''0.00''" by auto
  moreover from False have "\<not> d < 1 / 200" by simp
  ultimately show ?thesis by simp
qed

subsection \<open>The lowering loop\<close>

lemma initial_sel:
  "videoFilters initial = []" "audioFilters initial = []" "disableAudio initial = False"
  by (simp_all add: initial_def)

lemma lowerOp_video:
  "videoFilters (lowerOp c op st) = videoFilters st @ videoFilters (lowerOp c op initial)"
  by (cases op) (simp_all add: initial_def Let_def)

lemma lowerOp_audio:
  "audioFilters (lowerOp c op st) = audioFilters st @ audioFilters (lowerOp c op initial)"
  by (cases op) (simp_all add: initial_def Let_def)

lemma lowerOp_mute:
  "disableAudio (lowerOp c op st) = (disableAudio st \<or> op = Mute)"
  by (cases op) (simp_all add: Let_def)

lemma fold_video:
  "videoFilters (fold (lowerOp c) ops st) =
     videoFilters st @ concat (map (\<lambda>op. videoFilters (lowerOp c op initial)) ops)"
proof (induction ops arbitrary: st)
  case Nil
  show ?case by simp
next
  case (Cons op ops)
  show ?case by (simp add: Cons.IH lowerOp_video [of c op st])
qed

lemma fold_audio:
  "audioFilters (fold (lowerOp c) ops st) =
     audioFilters st @ concat (map (\<lambda>op. audioFilters (lowerOp c op initial)) ops)"
proof (induction ops arbitrary: st)
  case Nil
  show ?case by simp
next
  case (Cons op ops)
  show ?case by (simp add: Cons.IH lowerOp_audio [of c op st])
qed

lemma fold_mute:
  "disableAudio (fold (lowerOp c) ops st) = (disableAudio st \<or> Mute \<in> set ops)"
  by (induction ops arbitrary: st) (auto simp: lowerOp_mute)

lemma lowerOp_videoFilters:
  "videoFilters (lowerOp c Grayscale st) = videoFilters st @ [''hue=s=0'']"
  "videoFilters (lowerOp c (Speed f) st) = videoFilters st @ [''setpts='' @ ptsScale f @ ''*PTS'']"
  "videoFilters (lowerOp c Mute st) = videoFilters st"
  "videoFilters (lowerOp c (Brightness v) st) = videoFilters st @ [''eq=brightness='' @ toFixed v 2]"
  "videoFilters (lowerOp c (Crop Square) st) = videoFilters st @ [''crop=min(iw,ih):min(iw,ih)'']"
  "videoFilters (lowerOp c (Crop PortraitFill) st) =
     videoFilters st @ [''scale=720:-2:force_original_aspect_ratio=increase,crop=720:1280'']"
  "videoFilters (lowerOp c (Trim s e) st) = videoFilters st"
  by (simp_all add: Let_def)

lemma lowerOp_trim: "isTrim op \<Longrightarrow> lowerOp c op st = st"
  by (cases op) simp_all

lemma fold_drop_trims:
  "fold (lowerOp c) ops st = fold (lowerOp c) (filter (\<lambda>op. \<not> isTrim op) ops) st"
  by (induction ops arbitrary: st) (simp_all add: lowerOp_trim)

subsection \<open>Values that are no directive\<close>

text \<open>
  A rendered number has a point or, in exponent notation, a plus sign, and a video filter
  has an equals sign, which no directive has; a joined tempo chain starts like its first element.
\<close>

lemma set_join: "x \<in> set xs \<Longrightarrow> set x \<subseteq> set (join sep xs)"
  by (induction sep xs rule: join.induct) auto

lemma join_snoc: "xs \<noteq> [] \<Longrightarrow> join sep (xs @ [y]) = join sep xs @ sep @ y"
  by (induction sep xs rule: join.induct) simp_all

lemma join_has_eq:
  assumes "vf \<noteq> []" and "\<And>v. v \<in> set vf \<Longrightarrow> CHR ''='' \<in> set v"
  shows "CHR ''='' \<in> set (join sep vf)"
proof -
  from assms(1) obtain v where v: "v \<in> set vf" by (cases vf) auto
  with assms(2) have "CHR ''='' \<in> set v" by blast
  with set_join [OF v, of sep] show ?thesis by blast
qed

lemma toFixed_neq:
  "CHR ''.'' \<notin> set s \<Longrightarrow> CHR ''+'' \<notin> set s \<Longrightarrow> toFixed x 2 \<noteq> s"
  using toFixed_mark [of 2 x] by auto

lemma toFixed_neq':
  "CHR ''.'' \<notin> set s \<Longrightarrow> CHR ''+'' \<notin> set s \<Longrightarrow> s \<noteq> toFixed x 2"
  using toFixed_mark [of 2 x] by auto

lemma video_filter_has_eq:
  "v \<in> set (videoFilters (lowerOp c op initial)) \<Longrightarrow> CHR ''='' \<in> set v"
  by (cases op) (auto simp: initial_def Let_def split: if_splits)

lemma fold_video_has_eq:
  "v \<in> set (videoFilters (fold (lowerOp c) ops initial)) \<Longrightarrow> CHR ''='' \<in> set v"
  using video_filter_has_eq [of v c] by (auto simp: fold_video initial_def)

lemma vf_join_neq:
  "videoFilters (fold (lowerOp c) ops initial) \<noteq> [] \<Longrightarrow> CHR ''='' \<notin> set s \<Longrightarrow>
     s \<noteq> join sep (videoFilters (fold (lowerOp c) ops initial))"
  using join_has_eq [of "videoFilters (fold (lowerOp c) ops initial)" sep] fold_video_has_eq [of _ c ops]
  by metis

lemma vf_fps_join_neq:
  "CHR ''='' \<notin> set s \<Longrightarrow>
     s \<noteq> join sep (videoFilters (fold (lowerOp c) ops initial) @ [''fps=12''])"
proof -
  have "CHR ''='' \<in> set (join sep (videoFilters (fold (lowerOp c) ops initial) @ [''fps=12'']))"
    by (rule join_has_eq) (auto dest: fold_video_has_eq)
  then show "CHR ''='' \<notin> set s \<Longrightarrow> ?thesis" by metis
qed

lemmas not_flag = toFixed_neq' vf_join_neq vf_fps_join_neq

lemma join_comma_not_dash:
  "xs \<noteq> [] \<Longrightarrow> take 1 (hd xs) \<noteq> ''-'' \<Longrightarrow> take 1 (join '','' xs) \<noteq> ''-''"
proof (induction "'',''" xs rule: join.induct)
  case 1
  then show ?case by simp
next
  case (2 x)
  then show ?case by simp
next
  case (3 x y ys)
  then show ?case by (cases x) simp_all
qed

lemma audio_filter_elem:
  "a \<in> set (audioFilters (lowerOp c op initial)) \<Longrightarrow> \<exists>f. c f \<noteq> [] \<and> a = join '','' (c f)"
  by (cases op) (auto simp: initial_sel Let_def split: if_splits)

lemma fold_audio_elem:
  assumes "a \<in> set (audioFilters (fold (lowerOp c) ops initial))"
  shows "\<exists>f. c f \<noteq> [] \<and> a = join '','' (c f)"
  using assms audio_filter_elem [of a c] by (auto simp: fold_audio initial_sel)

lemma af_join_not_dash:
  assumes tempo: "\<forall>f. \<forall>t\<in>set (c f). take 1 t \<noteq> ''-''"
    and ne: "audioFilters (fold (lowerOp c) ops initial) \<noteq> []"
  shows "take 1 (join '','' (audioFilters (fold (lowerOp c) ops initial))) \<noteq> ''-''"
proof (rule join_comma_not_dash [OF ne])
  from ne have "hd (audioFilters (fold (lowerOp c) ops initial))
      \<in> set (audioFilters (fold (lowerOp c) ops initial))"
    by simp
  then obtain f where f: "c f \<noteq> []"
      and hd: "hd (audioFilters (fold (lowerOp c) ops initial)) = join '','' (c f)"
    using fold_audio_elem by blast
  from f have "hd (c f) \<in> set (c f)" by simp
  with tempo have "take 1 (hd (c f)) \<noteq> ''-''" by blast
  with f have "take 1 (join '','' (c f)) \<noteq> ''-''" by (rule join_comma_not_dash)
  with hd show "take 1 (hd (audioFilters (fold (lowerOp c) ops initial))) \<noteq> ''-''" by simp
qed

lemma af_join_neq:
  assumes "\<forall>f. \<forall>t\<in>set (c f). take 1 t \<noteq> ''-''"
    and "audioFilters (fold (lowerOp c) ops initial) \<noteq> []"
    and "take 1 s = ''-''"
  shows "s \<noteq> join '','' (audioFilters (fold (lowerOp c) ops initial))"
  using af_join_not_dash [OF assms(1,2)] assms(3) by auto

subsection \<open>The shape of the argument list\<close>

lemma find_isTrim_cases:
  obtains (none) "find isTrim ops = None"
  | (open_end) s where "find isTrim ops = Some (Trim s None)"
  | (closed) s en where "find isTrim ops = Some (Trim s (Some en))"
proof (cases "find isTrim ops")
  case None
  then show ?thesis by (rule none)
next
  case (Some a)
  then have "isTrim a" by (auto simp: find_Some_iff)
  then obtain s e where "a = Trim s e" by (cases a) simp_all
  with Some show ?thesis by (cases e) (auto intro: open_end closed)
qed


lemma find_via_filter: "find P xs = (case filter P xs of [] \<Rightarrow> None | x # ys \<Rightarrow> Some x)"
  by (induction xs) simp_all

lemma build_cong:
  assumes "find isTrim ops = find isTrim ops'"
    and "fold (lowerOp c) ops initial = fold (lowerOp c) ops' initial"
  shows "buildFfmpegArgs c ops fmt inputName outputName = buildFfmpegArgs c ops' fmt inputName outputName"
  unfolding buildFfmpegArgs_def using assms by simp

lemma buildFfmpegArgs_segments:
  "buildFfmpegArgs c ops fmt inputName outputName =
     seekArgs (find isTrim ops) @ [''-i'', inputName] @ durationArgs (find isTrim ops)
       @ videoArgs fmt (fold (lowerOp c) ops initial)
       @ audioArgs (fold (lowerOp c) ops initial)
       @ formatArgs fmt (fold (lowerOp c) ops initial) @ [outputName]"
  by (cases ops rule: find_isTrim_cases)
     (simp_all add: buildFfmpegArgs_def seekArgs_def durationArgs_def videoArgs_def audioArgs_def
        formatArgs_def Let_def max_def)

lemma default_plan_args:
  "buildFfmpegArgs c [Trim 5 None, Grayscale, Speed (6/5), Mute] Mp4 inputName outputName =
     [''-ss'', ''5.00'', ''-i'', inputName, ''-vf'', ''hue=s=0,setpts=0.8333*PTS'', ''-an'',
      ''-c:v'', ''libx264'', ''-preset'', ''veryfast'', ''-pix_fmt'', ''yuv420p'',
      ''-movflags'', ''faststart'', outputName]"
  by (simp add: buildFfmpegArgs_def Let_def fold_mute fold_video lowerOp_videoFilters
        initial_sel ptsScale_def toFixed_eval)

subsection \<open>The sample tempo helper\<close>

lemma atempoChain_no_dash: "\<forall>f. \<forall>t\<in>set (atempoChain f). take 1 t \<noteq> ''-''"
  by (auto simp: atempoChain_def split: option.splits)

lemma atempoChain_2: "atempoChain 2 = [''atempo=2.0000'']"
  by (simp add: atempoChain_def clampTempo_def toFixed_eval)

subsection \<open>The tempo chain\<close>

lemma ceiling_half_less:
  assumes "2 < (x::real)"
  shows "nat \<lceil>x / 2\<rceil> < nat \<lceil>x\<rceil>"
proof -
  have "x / 2 \<le> of_int \<lceil>x\<rceil> - 1"
    using assms le_of_int_ceiling [of x] by linarith
  then have "x / 2 \<le> of_int (\<lceil>x\<rceil> - 1)"
    by simp
  then have "\<lceil>x / 2\<rceil> \<le> \<lceil>x\<rceil> - 1"
    by (rule ceiling_le)
  moreover have "0 < \<lceil>x\<rceil>"
    using assms by simp
  ultimately show ?thesis by linarith
qed

lemma divideDown_returns:
  "1 / 2 \<le> r \<Longrightarrow>
     \<exists>chain. divideDown r = Some chain \<and> (\<forall>t\<in>set chain. 1 / 2 \<le> t \<and> t \<le> 2) \<and> prod_list chain = r"
proof (induction "nat \<lceil>r\<rceil>" arbitrary: r rule: less_induct)
  case less
  show ?case
  proof (cases "r \<le> 2")
    case True
    with less.prems have "divideDown r = Some [r]"
      by (subst divideDown.simps) simp
    with True less.prems show ?thesis by simp
  next
    case False
    then have "nat \<lceil>r / 2\<rceil> < nat \<lceil>r\<rceil>" and "1 / 2 \<le> r / 2"
      using ceiling_half_less [of r] by linarith+
    then obtain chain where chain: "divideDown (r / 2) = Some chain"
        "\<forall>t\<in>set chain. 1 / 2 \<le> t \<and> t \<le> 2" "prod_list chain = r / 2"
      using less.hyps by blast
    from False chain(1) have "divideDown r = Some (2 # chain)"
      by (subst divideDown.simps) simp
    with chain(2,3) show ?thesis by simp
  qed
qed

lemma scaleUp_returns:
  "0 < r \<Longrightarrow> r \<le> 2 \<Longrightarrow>
     \<exists>chain. scaleUp r = Some chain \<and> (\<forall>t\<in>set chain. 1 / 2 \<le> t \<and> t \<le> 2) \<and> prod_list chain = r"
proof (induction "nat \<lceil>1 / r\<rceil>" arbitrary: r rule: less_induct)
  case less
  show ?case
  proof (cases "1 / 2 \<le> r")
    case True
    with less.prems have "scaleUp r = Some [r]"
      by (subst scaleUp.simps) simp
    with True less.prems show ?thesis by simp
  next
    case False
    with less.prems have big: "2 < 1 / r"
      by (simp add: field_simps)
    have "1 / (r / (1 / 2)) = (1 / r) / 2" by simp
    with big have "nat \<lceil>1 / (r / (1 / 2))\<rceil> < nat \<lceil>1 / r\<rceil>"
      using ceiling_half_less [of "1 / r"] by presburger
    moreover from False less.prems have "0 < r / (1 / 2)" "r / (1 / 2) \<le> 2" by simp_all
    ultimately obtain chain where chain: "scaleUp (r / (1 / 2)) = Some chain"
        "\<forall>t\<in>set chain. 1 / 2 \<le> t \<and> t \<le> 2" "prod_list chain = r / (1 / 2)"
      using less.hyps by blast
    from False chain(1) have "scaleUp r = Some (1 / 2 # chain)"
      by (subst scaleUp.simps) simp
    with chain(2,3) show ?thesis by simp
  qed
qed

lemma clampTempo_5: "clampTempo 5 = Some [2, 2, 5 / 4]"
  by (simp add: clampTempo_def divideDown.simps [of 5] divideDown.simps [of "5 / 2"]
      divideDown.simps [of "5 / 4"])

lemma clampTempo_fifth: "clampTempo (1 / 5) = Some [1 / 2, 1 / 2, 4 / 5]"
  by (simp add: clampTempo_def scaleUp.simps [of "1 / 5"] scaleUp.simps [of "2 / 5"]
      scaleUp.simps [of "4 / 5"])

subsection \<open>The assembler\<close>

lemma firstOfKind_subset: "set (firstOfKind xs) \<subseteq> set xs"
  by (induction xs rule: firstOfKind.induct) auto

lemma firstOfKind_distinct: "distinct (map rank (firstOfKind xs))"
proof (induction xs rule: firstOfKind.induct)
  case 1
  show ?case by simp
next
  case (2 x xs)
  have "rank x \<notin> rank ` set (firstOfKind (filter (\<lambda>y. rank y \<noteq> rank x) xs))"
    using firstOfKind_subset [of "filter (\<lambda>y. rank y \<noteq> rank x) xs"] by auto
  with 2 show ?case by simp
qed

lemma firstOfKind_id: "distinct (map rank xs) \<Longrightarrow> firstOfKind xs = xs"
proof (induction xs)
  case Nil
  show ?case by simp
next
  case (Cons x xs)
  then have nin: "rank x \<notin> rank ` set xs" by simp
  have "\<forall>y\<in>set xs. rank y \<noteq> rank x"
  proof
    fix y
    assume "y \<in> set xs"
    then have "rank y \<in> rank ` set xs" by (rule imageI)
    with nin show "rank y \<noteq> rank x" by metis
  qed
  then have "filter (\<lambda>y. rank y \<noteq> rank x) xs = xs"
    by (simp add: filter_id_conv)
  with Cons show ?case by simp
qed

lemma assemble_strictly_sorted: "sorted_wrt (<) (map rank (assemble extracted))"
proof -
  let ?ys = "firstOfKind (filter wellFormed extracted)"
  have "sorted (map rank (sort_key rank ?ys))"
    by (rule sorted_sort_key)
  moreover have "distinct (map rank (sort_key rank ?ys))"
    using firstOfKind_distinct [of "filter wellFormed extracted"]
    by (simp add: distinct_map)
  ultimately show ?thesis
    by (simp add: assemble_def strict_sorted_iff)
qed

lemma filter_key_single:
  "distinct (map f xs) \<Longrightarrow> k \<in> set xs \<Longrightarrow> filter (\<lambda>x. f k = f x) xs = [k]"
proof (induction xs)
  case Nil
  then show ?case by simp
next
  case (Cons x xs)
  show ?case
  proof (cases "k = x")
    case True
    with Cons.prems have "filter (\<lambda>y. f k = f y) xs = []"
      by (auto simp: filter_empty_conv)
    with True show ?thesis by simp
  next
    case False
    with Cons.prems have kxs: "k \<in> set xs" by simp
    from Cons.prems have "f x \<notin> f ` set xs" by simp
    moreover from kxs have "f k \<in> f ` set xs" by (rule imageI)
    ultimately have "f k \<noteq> f x" by metis
    with Cons kxs show ?thesis by simp
  qed
qed

lemma sort_key_permutation:
  assumes "mset xs = mset ys" and "distinct (map f xs)"
  shows "sort_key f xs = sort_key f ys"
proof (rule properties_for_sort_key)
  show "mset (sort_key f ys) = mset xs"
    using assms(1) by simp
  have "mset (map f xs) = mset (map f ys)"
    using assms(1) by simp
  with assms(2) have dys: "distinct (map f ys)"
    using mset_eq_imp_distinct_iff [of "map f xs" "map f ys"] by simp
  show "filter (\<lambda>x. f k = f x) (sort_key f ys) = filter (\<lambda>x. f k = f x) xs"
    if "k \<in> set (sort_key f ys)" for k
  proof -
    from that have kys: "k \<in> set ys" by simp
    with assms(1) have kxs: "k \<in> set xs" using mset_eq_setD [of xs ys] by simp
    have "distinct (map f (sort_key f ys))"
      using dys by (simp add: distinct_map)
    with that have "filter (\<lambda>x. f k = f x) (sort_key f ys) = [k]"
      by (rule filter_key_single [rotated])
    moreover from assms(2) kxs have "filter (\<lambda>x. f k = f x) xs = [k]"
      by (rule filter_key_single)
    ultimately show ?thesis by simp
  qed
  show "sorted (map f (sort_key f ys))"
    by (rule sorted_sort_key)
qed

lemma assemble_permutation:
  assumes "mset extracted' = mset extracted" and "distinct (map rank extracted)"
  shows "assemble extracted' = assemble extracted"
proof -
  have "mset (map rank extracted') = mset (map rank extracted)"
    using assms(1) by simp
  with assms(2) have d': "distinct (map rank extracted')"
    using mset_eq_imp_distinct_iff [of "map rank extracted'" "map rank extracted"] by simp
  have m: "mset (filter wellFormed extracted') = mset (filter wellFormed extracted)"
    using assms(1) by simp
  have "distinct (map rank (filter wellFormed extracted'))"
    using d' by (rule distinct_map_filter)
  moreover have "distinct (map rank (filter wellFormed extracted))"
    using assms(2) by (rule distinct_map_filter)
  ultimately show ?thesis
    using m sort_key_permutation [of "filter wellFormed extracted'" "filter wellFormed extracted" rank]
    by (simp add: assemble_def firstOfKind_id)
qed

subsection \<open>The scan and the clauses of a prompt\<close>

lemma take_key_comma:
  assumes "CHR '','' \<notin> set k"
  shows "(take (length k) (a @ '','' @ b) = k) = (take (length k) a = k)"
proof (cases "length k \<le> length a")
  case True
  then show ?thesis by simp
next
  case False
  then obtain n where "length k - length a = Suc n"
    by (cases "length k - length a") simp_all
  then have eq: "take (length k) (a @ '','' @ b) = a @ '','' @ take n b"
    by simp
  have "k \<noteq> a @ '','' @ take n b"
    using assms by auto
  with eq have l: "take (length k) (a @ '','' @ b) \<noteq> k"
    by simp
  from False have "length (take (length k) a) \<noteq> length k"
    by simp
  then have "take (length k) a \<noteq> k"
    by auto
  with l show ?thesis by simp
qed

lemma keywordAt_clauseBound:
  assumes "\<forall>k\<in>set keys. k \<noteq> [] \<and> CHR '','' \<notin> set k"
  shows "clauseBound (keywordAt keys x)"
  unfolding clauseBound_def
proof (intro conjI allI)
  have "\<not> list_ex (\<lambda>k. take (length k) [] = k) keys"
    using assms by (auto simp: list_ex_iff)
  then show "keywordAt keys x [] = None"
    by (simp add: keywordAt_def)
next
  fix a b
  have "(take (length k) (a @ '','' @ b) = k) = (take (length k) a = k)" if "k \<in> set keys" for k
  proof -
    from that assms have "CHR '','' \<notin> set k" by blast
    then show ?thesis by (rule take_key_comma)
  qed
  then have "list_ex (\<lambda>k. take (length k) (a @ '','' @ b) = k) keys
      = list_ex (\<lambda>k. take (length k) a = k) keys"
    unfolding list_ex_iff by blast
  then show "keywordAt keys x (a @ '','' @ b) = keywordAt keys x a"
    unfolding keywordAt_def by (simp only:)
qed

lemma map_filter_agree:
  "(\<And>x. x \<in> set xs \<Longrightarrow> f x = g x) \<Longrightarrow> List.map_filter f xs = List.map_filter g xs"
proof (induction xs)
  case Nil
  show ?case by (simp add: map_filter_simps)
next
  case (Cons x xs)
  then have "f x = g x" and "List.map_filter f xs = List.map_filter g xs"
    by simp_all
  then show ?case by (cases "g x") (simp_all add: map_filter_simps)
qed

lemma extractAll_comma:
  assumes "\<forall>m\<in>set ms. clauseBound m"
  shows "extractAll ms (a @ '','' @ b) = extractAll ms a @ extractAll ms b"
proof (induction a)
  case Nil
  have "List.map_filter (\<lambda>m. m ('','' @ b)) ms = []"
  proof -
    have "m ('','' @ b) = None" if "m \<in> set ms" for m
    proof -
      from that assms have "clauseBound m" by blast
      then have "m ([] @ '','' @ b) = m []" and "m [] = None"
        unfolding clauseBound_def by blast+
      then show ?thesis by simp
    qed
    then show ?thesis
      by (simp add: List.map_filter_def filter_empty_conv)
  qed
  then show ?case by simp
next
  case (Cons ch a)
  have "List.map_filter (\<lambda>m. m (ch # a @ '','' @ b)) ms = List.map_filter (\<lambda>m. m (ch # a)) ms"
  proof -
    have "m (ch # a @ '','' @ b) = m (ch # a)" if "m \<in> set ms" for m
    proof -
      from that assms have "clauseBound m" by blast
      then have "m ((ch # a) @ '','' @ b) = m (ch # a)"
        unfolding clauseBound_def by blast
      then show ?thesis by simp
    qed
    then show ?thesis
      by (rule map_filter_agree)
  qed
  with Cons show ?case by simp
qed

lemma extractAll_join:
  assumes "\<forall>m\<in>set ms. clauseBound m"
  shows "extractAll ms (join '','' clauses) = concat (map (extractAll ms) clauses)"
proof (induction "'',''" clauses rule: join.induct)
  case 1
  show ?case by simp
next
  case (2 x)
  show ?case by simp
next
  case (3 x y ys)
  then show ?case
    using extractAll_comma [OF assms, of x "join '','' (y # ys)"] by simp
qed

lemma toLowerCase_join: "toLowerCase (join '','' clauses) = join '','' (map toLowerCase clauses)"
proof (induction "'',''" clauses rule: join.induct)
  case 1
  show ?case by (simp add: toLowerCase_def)
next
  case (2 x)
  show ?case by simp
next
  case (3 x y ys)
  have "toLowerCase (x @ '','' @ join '','' (y # ys)) =
      toLowerCase x @ '','' @ toLowerCase (join '','' (y # ys))"
    by (simp add: toLowerCase_def)
  with 3 show ?case by simp
qed

lemma mset_concat_map:
  "mset (concat (map g xs)) = sum_mset (image_mset (\<lambda>x. mset (g x)) (mset xs))"
proof (induction xs)
  case Nil
  show ?case by simp
next
  case (Cons x xs)
  then show ?case by simp
qed

lemma extractAll_permutation:
  assumes "\<forall>m\<in>set ms. clauseBound m" and "mset clauses' = mset clauses"
  shows "mset (extractAll ms (toLowerCase (join '','' clauses')))
       = mset (extractAll ms (toLowerCase (join '','' clauses)))"
proof -
  have e: "extractAll ms (toLowerCase (join '','' cs))
      = concat (map (\<lambda>c. extractAll ms (toLowerCase c)) cs)" for cs
    by (simp add: toLowerCase_join extractAll_join [OF assms(1)] comp_def)
  have "mset (concat (map (\<lambda>c. extractAll ms (toLowerCase c)) clauses'))
      = mset (concat (map (\<lambda>c. extractAll ms (toLowerCase c)) clauses))"
    unfolding mset_concat_map using assms(2) by (simp only:)
  then show ?thesis
    unfolding e .
qed

lemma keywordMatchers_bound: "\<forall>m\<in>set keywordMatchers. clauseBound m"
  by (simp add: keywordMatchers_def keywordAt_clauseBound)

lemma video_directive:
  assumes "concat (map (\<lambda>op. videoFilters (lowerOp c op initial)) ops)
             @ (if fmt = Gif then [''fps=12''] else []) \<noteq> []"
  shows "\<exists>pre post. buildFfmpegArgs c ops fmt inputName outputName =
           pre @ [''-vf'', join '','' (concat (map (\<lambda>op. videoFilters (lowerOp c op initial)) ops)
                                      @ (if fmt = Gif then [''fps=12''] else []))] @ post"
proof -
  let ?t = "find isTrim ops" and ?st = "fold (lowerOp c) ops initial"
  have "buildFfmpegArgs c ops fmt inputName outputName =
      (seekArgs ?t @ [''-i'', inputName] @ durationArgs ?t)
        @ [''-vf'', join '','' (concat (map (\<lambda>op. videoFilters (lowerOp c op initial)) ops)
                                      @ (if fmt = Gif then [''fps=12''] else []))]
        @ (audioArgs ?st @ formatArgs fmt ?st @ [outputName])"
    using assms by (cases fmt) (simp_all add: buildFfmpegArgs_segments videoArgs_def fold_video initial_sel)
  then show ?thesis by blast
qed

lemmas extract_eval = keywordMatchers_def keywordAt_def toLowerCase_def

lemma dependent_clauses_differ:
  "planEditingSteps keywordMatchers ''square,portrait'' \<noteq>
   planEditingSteps keywordMatchers ''portrait,square''"
  by (simp add: planEditingSteps_def assemble_def extract_eval)

lemma numberAfter_clauseBound:
  assumes "key \<noteq> []" and "CHR '','' \<notin> set key" and "CHR '','' \<notin> set unit"
  shows "clauseBound (numberAfter key unit mk)"
  unfolding clauseBound_def
proof (intro conjI allI)
  from assms(1) show "numberAfter key unit mk [] = None"
    by (auto simp: numberAfter_def)
next
  fix a b
  have pre: "(take (length key) (a @ '','' @ b) = key) = (take (length key) a = key)"
    using assms(2) by (rule take_key_comma)
  show "numberAfter key unit mk (a @ '','' @ b) = numberAfter key unit mk a"
  proof (cases "take (length key) a = key")
    case False
    with pre show ?thesis by (simp only: numberAfter_def if_False)
  next
    case True
    then have "length (take (length key) a) = length key"
      by simp
    then have len: "length key \<le> length a"
      by simp
    define r where "r = drop (length key) a"
    have d: "drop (length key) (a @ '','' @ b) = r @ '','' @ b"
      using len by (simp add: r_def)
    have nc: "\<not> isNumberChar CHR '',''"
      by (simp add: isNumberChar_def)
    have tw: "takeWhile isNumberChar (r @ '','' @ b) = takeWhile isNumberChar r"
      using nc by (induction r) simp_all
    have dw: "dropWhile isNumberChar (r @ '','' @ b) = dropWhile isNumberChar r @ '','' @ b"
      using nc by (induction r) simp_all
    have u: "(take (length unit) (dropWhile isNumberChar r @ '','' @ b) = unit)
        = (take (length unit) (dropWhile isNumberChar r) = unit)"
      using assms(3) by (rule take_key_comma)
    have "numberAfter key unit mk (a @ '','' @ b)
        = (if take (length unit) (dropWhile isNumberChar r @ '','' @ b) = unit
           then map_option mk (readDecimal (takeWhile isNumberChar r)) else None)"
      unfolding numberAfter_def Let_def d tw dw using True pre by simp
    also have "\<dots> = (if take (length unit) (dropWhile isNumberChar r) = unit
           then map_option mk (readDecimal (takeWhile isNumberChar r)) else None)"
      by (simp only: u)
    also have "\<dots> = numberAfter key unit mk a"
      unfolding numberAfter_def Let_def r_def using True by simp
    finally show ?thesis .
  qed
qed

lemma examplePatterns_bound: "\<forall>m\<in>set examplePatterns. clauseBound m"
  using keywordMatchers_bound
  by (simp add: examplePatterns_def numberAfter_clauseBound)

lemmas number_eval = examplePatterns_def numberAfter_def readDecimal_def readDigits_def
  isNumberChar_def

lemma extract_default:
  "extractAll examplePatterns (toLowerCase defaultPrompt) = [Trim 5 None, Grayscale, Speed (6 / 5), Mute]"
  by (simp add: defaultPrompt_def number_eval extract_eval)

lemma plan_default:
  "planEditingSteps examplePatterns defaultPrompt =
     \<lparr>operations = [Trim 5 None, Grayscale, Speed (6 / 5), Mute], outputExtension = Mp4\<rparr>"
proof -
  have "extractAll [keywordAt [''gif''] Gif] (toLowerCase defaultPrompt) = []"
    by (simp add: defaultPrompt_def extract_eval)
  then show ?thesis
    by (simp add: planEditingSteps_def extract_default assemble_def)
qed

lemma defaultPrompt_clauses:
  "defaultPrompt = join '','' [''Trim the first 5 seconds'', '' convert to black and white'',
     '' speed up to 1.2x'', '' and mute the audio.'']"
  by (simp add: defaultPrompt_def)

section \<open>The claims about the compiler\<close>

text \<open>
  In the theorems below \<open>c\<close> is the tempo helper, \<open>inputName\<close> and \<open>outputName\<close> are the
  names that \<^verbatim>\<open>processVideo\<close> passes (\<^verbatim>\<open>input.mp4\<close>, \<^verbatim>\<open>output.gif\<close> and the like).
  That the list holds no directive \<open>d\<close> needs the names not to be \<open>d\<close> themselves, and, where an
  audio filter may be emitted, the elements of a tempo chain not to start with a dash.
\<close>

text \<open>
  C1. The plan of the default prompt, the operations grayscale, speed 1.2 and mute in
  this order together with a trim from 5 seconds without an end (wherever the trim stands in
  the list), compiles for mp4 to a list with the video-filter directive
  \<^verbatim>\<open>-vf hue=s=0,setpts=0.8333*PTS\<close>, the disable-audio directive \<^verbatim>\<open>-an\<close> and no duration
  directive \<^verbatim>\<open>-t\<close>; the whole list is given.
\<close>

theorem default_prompt_plan:
  assumes "filter isTrim ops = [Trim 5 None]"
    and "filter (\<lambda>op. \<not> isTrim op) ops = [Grayscale, Speed (6 / 5), Mute]"
    and "inputName \<noteq> ''-t''" and "outputName \<noteq> ''-t''"
  shows "buildFfmpegArgs c ops Mp4 inputName outputName =
           [''-ss'', ''5.00'', ''-i'', inputName, ''-vf'', ''hue=s=0,setpts=0.8333*PTS'', ''-an'',
            ''-c:v'', ''libx264'', ''-preset'', ''veryfast'', ''-pix_fmt'', ''yuv420p'',
            ''-movflags'', ''faststart'', outputName]
       \<and> ''-t'' \<notin> set (buildFfmpegArgs c ops Mp4 inputName outputName)"
proof -
  have "find isTrim ops = find isTrim [Trim 5 None, Grayscale, Speed (6 / 5), Mute]"
    using assms(1) by (simp add: find_via_filter)
  moreover have "fold (lowerOp c) ops initial =
      fold (lowerOp c) [Trim 5 None, Grayscale, Speed (6 / 5), Mute] initial"
    using assms(2) fold_drop_trims [of c ops initial] by simp
  ultimately have "buildFfmpegArgs c ops Mp4 inputName outputName =
      buildFfmpegArgs c [Trim 5 None, Grayscale, Speed (6 / 5), Mute] Mp4 inputName outputName"
    by (rule build_cong)
  then show ?thesis
    using assms(3,4) by (simp add: default_plan_args)
qed

theorem default_prompt_plan_witness:
  "buildFfmpegArgs atempoChain [Trim 5 None, Grayscale, Speed (6 / 5), Mute] Mp4
     ''input.mp4'' ''output.mp4'' =
     [''-ss'', ''5.00'', ''-i'', ''input.mp4'', ''-vf'', ''hue=s=0,setpts=0.8333*PTS'', ''-an'',
      ''-c:v'', ''libx264'', ''-preset'', ''veryfast'', ''-pix_fmt'', ''yuv420p'',
      ''-movflags'', ''faststart'', ''output.mp4'']
   \<and> ''-t'' \<notin> set (buildFfmpegArgs atempoChain [Trim 5 None, Grayscale, Speed (6 / 5), Mute] Mp4
                     ''input.mp4'' ''output.mp4'')"
  using default_prompt_plan [where ops = "[Trim 5 None, Grayscale, Speed (6 / 5), Mute]"
      and inputName = "''input.mp4''" and outputName = "''output.mp4''" and c = atempoChain]
  by simp

text \<open>
  C2. Mute dominance: whenever the plan contains a mute operation, for both output
  formats, the list contains \<^verbatim>\<open>-an\<close> and neither an audio-filter directive \<^verbatim>\<open>-af\<close> nor an
  audio-codec directive \<^verbatim>\<open>-c:a\<close>, whatever tempo chains the speed operations ask for.
\<close>

theorem mute_dominance:
  assumes "Mute \<in> set ops"
    and "inputName \<notin> {''-af'', ''-c:a''}" and "outputName \<notin> {''-af'', ''-c:a''}"
  shows "''-an'' \<in> set (buildFfmpegArgs c ops fmt inputName outputName)
       \<and> ''-af'' \<notin> set (buildFfmpegArgs c ops fmt inputName outputName)
       \<and> ''-c:a'' \<notin> set (buildFfmpegArgs c ops fmt inputName outputName)"
  using assms
  by (auto simp add: buildFfmpegArgs_def Let_def fold_mute initial_def [symmetric]
        not_flag split: option.splits)

theorem mute_dominance_witness:
  "Mute \<in> set [Speed 2, Mute]
   \<and> ''-an'' \<in> set (buildFfmpegArgs atempoChain [Speed 2, Mute] Mp4 ''input.mp4'' ''output.mp4'')
   \<and> ''-af'' \<notin> set (buildFfmpegArgs atempoChain [Speed 2, Mute] Mp4 ''input.mp4'' ''output.mp4'')
   \<and> ''-c:a'' \<notin> set (buildFfmpegArgs atempoChain [Speed 2, Mute] Mp4 ''input.mp4'' ''output.mp4'')"
  using mute_dominance [where ops = "[Speed 2, Mute]" and inputName = "''input.mp4''"
      and outputName = "''output.mp4''" and c = atempoChain and fmt = Mp4]
  by simp




text \<open>
  C4. GIF output: for the gif format the video-filter directive carries the filters of the
  operations, in the order of the plan, with \<^verbatim>\<open>fps=12\<close> appended as the last element of the
  chain (so after \<^verbatim>\<open>hue=s=0\<close> when the plan has a grayscale operation); the joined value is
  the joined filters of the plan followed by \<^verbatim>\<open>,fps=12\<close>. The list ends with
  \<^verbatim>\<open>-loop 0\<close> and the output name, and holds neither \<^verbatim>\<open>-c:v\<close> nor \<^verbatim>\<open>-c:a\<close>.
\<close>

theorem gif_output:
  assumes "inputName \<notin> {''-c:v'', ''-c:a''}" and "outputName \<notin> {''-c:v'', ''-c:a''}"
    and "\<forall>f. \<forall>t\<in>set (c f). take 1 t \<noteq> ''-''"
  shows "(\<exists>pre post. buildFfmpegArgs c ops Gif inputName outputName =
            pre @ [''-vf'', join '','' (concat (map (\<lambda>op. videoFilters (lowerOp c op initial)) ops)
                                       @ [''fps=12''])] @ post)
       \<and> (Grayscale \<in> set ops \<longrightarrow>
            ''hue=s=0'' \<in> set (concat (map (\<lambda>op. videoFilters (lowerOp c op initial)) ops)))
       \<and> (concat (map (\<lambda>op. videoFilters (lowerOp c op initial)) ops) \<noteq> [] \<longrightarrow>
            join '','' (concat (map (\<lambda>op. videoFilters (lowerOp c op initial)) ops) @ [''fps=12'']) =
            join '','' (concat (map (\<lambda>op. videoFilters (lowerOp c op initial)) ops)) @ '',fps=12'')
       \<and> (\<exists>pre. buildFfmpegArgs c ops Gif inputName outputName = pre @ [''-loop'', ''0'', outputName])
       \<and> ''-c:v'' \<notin> set (buildFfmpegArgs c ops Gif inputName outputName)
       \<and> ''-c:a'' \<notin> set (buildFfmpegArgs c ops Gif inputName outputName)"
proof (intro conjI)
  let ?t = "find isTrim ops" and ?st = "fold (lowerOp c) ops initial"
  have "buildFfmpegArgs c ops Gif inputName outputName =
      (seekArgs ?t @ [''-i'', inputName] @ durationArgs ?t)
        @ [''-vf'', join '','' (concat (map (\<lambda>op. videoFilters (lowerOp c op initial)) ops)
                                       @ [''fps=12''])]
        @ (audioArgs ?st @ formatArgs Gif ?st @ [outputName])"
    by (simp add: buildFfmpegArgs_segments videoArgs_def fold_video initial_sel)
  then show "\<exists>pre post. buildFfmpegArgs c ops Gif inputName outputName =
            pre @ [''-vf'', join '','' (concat (map (\<lambda>op. videoFilters (lowerOp c op initial)) ops)
                                       @ [''fps=12''])] @ post"
    by blast
next
  show "Grayscale \<in> set ops \<longrightarrow>
      ''hue=s=0'' \<in> set (concat (map (\<lambda>op. videoFilters (lowerOp c op initial)) ops))"
    by (auto simp: initial_sel intro!: bexI [of _ Grayscale])
next
  show "concat (map (\<lambda>op. videoFilters (lowerOp c op initial)) ops) \<noteq> [] \<longrightarrow>
      join '','' (concat (map (\<lambda>op. videoFilters (lowerOp c op initial)) ops) @ [''fps=12'']) =
      join '','' (concat (map (\<lambda>op. videoFilters (lowerOp c op initial)) ops)) @ '',fps=12''"
    by (simp add: join_snoc)
next
  let ?t = "find isTrim ops" and ?st = "fold (lowerOp c) ops initial"
  have "buildFfmpegArgs c ops Gif inputName outputName =
      (seekArgs ?t @ [''-i'', inputName] @ durationArgs ?t @ videoArgs Gif ?st @ audioArgs ?st)
        @ [''-loop'', ''0'', outputName]"
    by (simp add: buildFfmpegArgs_segments formatArgs_def)
  then show "\<exists>pre. buildFfmpegArgs c ops Gif inputName outputName = pre @ [''-loop'', ''0'', outputName]"
    by blast
next
  note af = af_join_neq [OF assms(3), of ops]
  show "''-c:v'' \<notin> set (buildFfmpegArgs c ops Gif inputName outputName)"
    using assms(1,2) af [of "''-c:v''"]
    by (auto simp add: buildFfmpegArgs_def Let_def not_flag split: option.splits)
  show "''-c:a'' \<notin> set (buildFfmpegArgs c ops Gif inputName outputName)"
    using assms(1,2) af [of "''-c:a''"]
    by (auto simp add: buildFfmpegArgs_def Let_def not_flag split: option.splits)
qed

theorem gif_output_witness:
  "buildFfmpegArgs atempoChain [Grayscale, Speed 2] Gif ''input.mp4'' ''output.gif'' =
     [''-i'', ''input.mp4''] @ [''-vf'', ''hue=s=0,setpts=0.5000*PTS,fps=12'']
       @ [''-af'', ''atempo=2.0000''] @ [''-loop'', ''0'', ''output.gif'']
   \<and> ''-c:v'' \<notin> set (buildFfmpegArgs atempoChain [Grayscale, Speed 2] Gif ''input.mp4'' ''output.gif'')
   \<and> ''-c:a'' \<notin> set (buildFfmpegArgs atempoChain [Grayscale, Speed 2] Gif ''input.mp4'' ''output.gif'')"
proof -
  have "buildFfmpegArgs atempoChain [Grayscale, Speed 2] Gif ''input.mp4'' ''output.gif'' =
     [''-i'', ''input.mp4'', ''-vf'', ''hue=s=0,setpts=0.5000*PTS,fps=12'',
      ''-af'', ''atempo=2.0000'', ''-loop'', ''0'', ''output.gif'']"
    by (simp add: buildFfmpegArgs_def Let_def initial_def atempoChain_2 ptsScale_def toFixed_eval)
  with gif_output [where ops = "[Grayscale, Speed 2]" and inputName = "''input.mp4''"
      and outputName = "''output.gif''" and c = atempoChain, OF _ _ atempoChain_no_dash]
  show ?thesis by simp
qed



text \<open>
  C9, as amended. Degenerate trims: the list holds the duration directive \<^verbatim>\<open>-t\<close> exactly
  when the first trim has an end that is positive and greater than its start; so a trim
  whose end is not after its start, or not positive, gives no \<^verbatim>\<open>-t\<close>. When emitted, the
  directive carries \<^verbatim>\<open>toFixed(2)\<close> of the duration \<open>end - start\<close>, a positive number; the
  rendered text reads \<^verbatim>\<open>0.00\<close> exactly when the duration is below \<open>0.005\<close>.
\<close>

theorem duration_directive:
  assumes "inputName \<noteq> ''-t''" and "outputName \<noteq> ''-t''"
    and "\<forall>f. \<forall>t\<in>set (c f). take 1 t \<noteq> ''-''"
  shows "((''-t'' \<in> set (buildFfmpegArgs c ops fmt inputName outputName)) =
            (\<exists>s en. find isTrim ops = Some (Trim s (Some en)) \<and> 0 < en \<and> s < en))
       \<and> (\<forall>s en. find isTrim ops = Some (Trim s (Some en)) \<and> 0 < en \<and> s < en \<longrightarrow>
            (\<exists>pre post. buildFfmpegArgs c ops fmt inputName outputName =
               pre @ [''-t'', toFixed (en - s) 2] @ post)
            \<and> ((toFixed (en - s) 2 = ''0.00'') = (en - s < 1 / 200)))"
proof (intro conjI allI impI)
  note af = af_join_neq [OF assms(3), of ops "''-t''"]
  show "(''-t'' \<in> set (buildFfmpegArgs c ops fmt inputName outputName)) =
      (\<exists>s en. find isTrim ops = Some (Trim s (Some en)) \<and> 0 < en \<and> s < en)"
  proof (cases ops rule: find_isTrim_cases)
    case none
    with assms(1,2) af show ?thesis
      by (auto simp add: buildFfmpegArgs_def Let_def not_flag)
  next
    case (open_end s)
    with assms(1,2) af show ?thesis
      by (auto simp add: buildFfmpegArgs_def Let_def not_flag)
  next
    case (closed s en)
    with assms(1,2) af show ?thesis
      by (auto simp add: buildFfmpegArgs_def Let_def not_flag)
  qed
next
  fix s en
  assume first: "find isTrim ops = Some (Trim s (Some en)) \<and> 0 < en \<and> s < en"
  let ?st = "fold (lowerOp c) ops initial"
  from first have "buildFfmpegArgs c ops fmt inputName outputName =
      (seekArgs (find isTrim ops) @ [''-i'', inputName]) @ [''-t'', toFixed (en - s) 2]
        @ (videoArgs fmt ?st @ audioArgs ?st @ formatArgs fmt ?st @ [outputName])"
    by (simp add: buildFfmpegArgs_segments durationArgs_def)
  then show "\<exists>pre post. buildFfmpegArgs c ops fmt inputName outputName =
      pre @ [''-t'', toFixed (en - s) 2] @ post"
    by blast
next
  fix s en
  assume "find isTrim ops = Some (Trim s (Some en)) \<and> 0 < en \<and> s < en"
  then have "0 \<le> en - s" by simp
  then show "(toFixed (en - s) 2 = ''0.00'') = (en - s < 1 / 200)"
    by (rule toFixed_zero_iff)
qed

theorem duration_directive_witness:
  "''-t'' \<notin> set (buildFfmpegArgs atempoChain [Trim 5 (Some 3), Speed 2] Mp4 ''input.mp4'' ''output.mp4'')
   \<and> ''-t'' \<in> set (buildFfmpegArgs atempoChain [Trim 5 (Some 8), Speed 2] Mp4 ''input.mp4'' ''output.mp4'')"
  using duration_directive [where ops = "[Trim 5 (Some 3), Speed 2]" and inputName = "''input.mp4''"
      and outputName = "''output.mp4''" and c = atempoChain and fmt = Mp4, OF _ _ atempoChain_no_dash]
    duration_directive [where ops = "[Trim 5 (Some 8), Speed 2]" and inputName = "''input.mp4''"
      and outputName = "''output.mp4''" and c = atempoChain and fmt = Mp4, OF _ _ atempoChain_no_dash]
  by simp

text \<open>
  The claim C9 as first stated, that an emitted \<^verbatim>\<open>-t\<close> always carries a strictly positive
  value, fails for a trim from 0 to 0.004 seconds: the guard \<^verbatim>\<open>duration > 0\<close> passes
  and the directive carries \<^verbatim>\<open>0.00\<close>, the very text that renders a duration of zero.
\<close>

theorem zero_duration_counterexample:
  "buildFfmpegArgs atempoChain [Trim 0 (Some (1 / 250))] Mp4 ''input.mp4'' ''output.mp4'' =
     [''-i'', ''input.mp4'', ''-t'', ''0.00'', ''-c:v'', ''libx264'', ''-preset'', ''veryfast'',
      ''-pix_fmt'', ''yuv420p'', ''-c:a'', ''aac'', ''-movflags'', ''faststart'', ''output.mp4'']
   \<and> toFixed 0 2 = ''0.00''"
  by (simp add: buildFfmpegArgs_def Let_def initial_def toFixed_eval)

text \<open>
  C10. Compiling the empty operation list for mp4 gives exactly the input directive,
  the fixed video and audio codec directives and the output name, in this order: no
  seek, duration, filter or disable-audio directive, a full re-encode, the output last.
\<close>

theorem empty_plan_mp4:
  "buildFfmpegArgs c [] Mp4 inputName outputName =
     [''-i'', inputName, ''-c:v'', ''libx264'', ''-preset'', ''veryfast'', ''-pix_fmt'', ''yuv420p'',
      ''-c:a'', ''aac'', ''-movflags'', ''faststart'', outputName]"
  by (simp add: buildFfmpegArgs_def initial_def)

section \<open>The claims about the parts modelled from the spec\<close>

text \<open>
  C5. Tempo chain: for every positive factor, so for every factor in \<open>(0, 10]\<close>, the
  clamper returns a chain, each element of the chain lies in \<open>[0.5, 2.0]\<close> and the product
  of the chain is the factor (exactly, in real arithmetic, hence within \<open>10\<^sup>-\<^sup>6\<close>); for the
  factor 1 the chain is empty.
\<close>

theorem tempo_chain_invariant:
  "(0 < f \<longrightarrow>
      (\<exists>chain. clampTempo f = Some chain
         \<and> (\<forall>t\<in>set chain. 1 / 2 \<le> t \<and> t \<le> 2)
         \<and> prod_list chain = f
         \<and> \<bar>prod_list chain - f\<bar> \<le> 1 / 10 ^ 6))
   \<and> clampTempo 1 = Some []"
proof (intro conjI impI)
  assume pos: "0 < f"
  have "\<exists>chain. clampTempo f = Some chain \<and> (\<forall>t\<in>set chain. 1 / 2 \<le> t \<and> t \<le> 2) \<and> prod_list chain = f"
  proof -
    consider "f = 1" | "1 / 2 \<le> f" "f \<le> 2" "f \<noteq> 1" | "2 < f" | "f < 1 / 2"
      by linarith
    then show ?thesis
    proof cases
      case 1
      then show ?thesis by (simp add: clampTempo_def)
    next
      case 2
      then show ?thesis by (simp add: clampTempo_def)
    next
      case 3
      then have "clampTempo f = divideDown f" by (simp add: clampTempo_def)
      with 3 divideDown_returns [of f] show ?thesis by simp
    next
      case 4
      then have "clampTempo f = scaleUp f" by (simp add: clampTempo_def)
      with 4 pos scaleUp_returns [of f] show ?thesis by simp
    qed
  qed
  then show "\<exists>chain. clampTempo f = Some chain
         \<and> (\<forall>t\<in>set chain. 1 / 2 \<le> t \<and> t \<le> 2)
         \<and> prod_list chain = f
         \<and> \<bar>prod_list chain - f\<bar> \<le> 1 / 10 ^ 6"
    by auto
next
  show "clampTempo 1 = Some []" by (simp add: clampTempo_def)
qed

theorem tempo_chain_invariant_witness:
  "(0::real) < 5 \<and> clampTempo 5 = Some [2, 2, 5 / 4] \<and> prod_list [2, 2, 5 / 4] = (5::real)
   \<and> (0::real) < 1 / 5 \<and> clampTempo (1 / 5) = Some [1 / 2, 1 / 2, 4 / 5]
   \<and> prod_list [1 / 2, 1 / 2, 4 / 5] = (1 / 5 :: real)"
  using tempo_chain_invariant [of 5] tempo_chain_invariant [of "1 / 5"]
  by (simp add: clampTempo_5 clampTempo_fifth)

text \<open>
  C6. Canonical order: the operations of every plan stand in strictly increasing canonical
  rank (trim, grayscale, speed, brightness, crop, mute), whatever the order of their mention.
  Permuting the clauses of a prompt, when the patterns are bound to clauses and no kind of
  operation is mentioned twice, gives an equal plan; clauses that mention a kind twice are
  not independent, the first mention wins (lemma \<open>dependent_clauses_differ\<close>). The compiler lowers the plan in its
  order: the video-filter directive of \<^verbatim>\<open>buildFfmpegArgs\<close> carries the filters of the
  plan's operations, one after the other in the order of the plan, before the frame-rate
  filter of the gif format.
\<close>

theorem canonical_order:
  "sorted_wrt (<) (map rank (operations (planEditingSteps ms prompt)))
   \<and> ((\<forall>m\<in>set ms. clauseBound m) \<and> mset clauses' = mset clauses
        \<and> distinct (map rank (extractAll ms (toLowerCase (join '','' clauses)))) \<longrightarrow>
      planEditingSteps ms (join '','' clauses') = planEditingSteps ms (join '','' clauses))
   \<and> (concat (map (\<lambda>op. videoFilters (lowerOp c op initial)) (operations (planEditingSteps ms prompt)))
          @ (if outputExtension (planEditingSteps ms prompt) = Gif then [''fps=12''] else []) \<noteq> [] \<longrightarrow>
      (\<exists>pre post.
         buildFfmpegArgs c (operations (planEditingSteps ms prompt))
           (outputExtension (planEditingSteps ms prompt)) inputName outputName =
         pre @ [''-vf'',
                join '','' (concat (map (\<lambda>op. videoFilters (lowerOp c op initial))
                                       (operations (planEditingSteps ms prompt)))
                            @ (if outputExtension (planEditingSteps ms prompt) = Gif
                               then [''fps=12''] else []))] @ post))"
proof (intro conjI impI)
  show "sorted_wrt (<) (map rank (operations (planEditingSteps ms prompt)))"
    unfolding planEditingSteps_def by (simp add: assemble_strictly_sorted)
next
  assume a: "(\<forall>m\<in>set ms. clauseBound m) \<and> mset clauses' = mset clauses
      \<and> distinct (map rank (extractAll ms (toLowerCase (join '','' clauses))))"
  then have "mset (extractAll ms (toLowerCase (join '','' clauses')))
      = mset (extractAll ms (toLowerCase (join '','' clauses)))"
    using extractAll_permutation [of ms clauses' clauses] by blast
  with a have ops: "assemble (extractAll ms (toLowerCase (join '','' clauses')))
      = assemble (extractAll ms (toLowerCase (join '','' clauses)))"
    using assemble_permutation [of "extractAll ms (toLowerCase (join '','' clauses'))"
        "extractAll ms (toLowerCase (join '','' clauses))"] by blast
  have "clauseBound (keywordAt [''gif''] Gif)"
    by (rule keywordAt_clauseBound) simp
  then have "\<forall>m\<in>set [keywordAt [''gif''] Gif]. clauseBound m"
    by simp
  with a have "mset (extractAll [keywordAt [''gif''] Gif] (toLowerCase (join '','' clauses')))
      = mset (extractAll [keywordAt [''gif''] Gif] (toLowerCase (join '','' clauses)))"
    using extractAll_permutation [of "[keywordAt [''gif''] Gif]" clauses' clauses] by blast
  then have "(extractAll [keywordAt [''gif''] Gif] (toLowerCase (join '','' clauses')) = [])
      = (extractAll [keywordAt [''gif''] Gif] (toLowerCase (join '','' clauses)) = [])"
    by (metis mset_zero_iff)
  with ops show "planEditingSteps ms (join '','' clauses') = planEditingSteps ms (join '','' clauses)"
    unfolding planEditingSteps_def by simp
next
  assume "concat (map (\<lambda>op. videoFilters (lowerOp c op initial)) (operations (planEditingSteps ms prompt)))
      @ (if outputExtension (planEditingSteps ms prompt) = Gif then [''fps=12''] else []) \<noteq> []"
  then show "\<exists>pre post.
         buildFfmpegArgs c (operations (planEditingSteps ms prompt))
           (outputExtension (planEditingSteps ms prompt)) inputName outputName =
         pre @ [''-vf'',
                join '','' (concat (map (\<lambda>op. videoFilters (lowerOp c op initial))
                                       (operations (planEditingSteps ms prompt)))
                            @ (if outputExtension (planEditingSteps ms prompt) = Gif
                               then [''fps=12''] else []))] @ post"
    by (rule video_directive)
qed

theorem canonical_order_witness:
  "planEditingSteps examplePatterns
     '' and mute the audio., speed up to 1.2x, convert to black and white,Trim the first 5 seconds'' =
     planEditingSteps examplePatterns defaultPrompt
   \<and> planEditingSteps examplePatterns defaultPrompt =
       \<lparr>operations = [Trim 5 None, Grayscale, Speed (6 / 5), Mute], outputExtension = Mp4\<rparr>
   \<and> (\<exists>pre post.
         buildFfmpegArgs atempoChain [Trim 5 None, Grayscale, Speed (6 / 5), Mute] Mp4
           ''input.mp4'' ''output.mp4'' =
         pre @ [''-vf'', ''hue=s=0,setpts=0.8333*PTS''] @ post)"
proof -
  have "(\<forall>m\<in>set examplePatterns. clauseBound m)
      \<and> mset ['' and mute the audio.'', '' speed up to 1.2x'', '' convert to black and white'',
               ''Trim the first 5 seconds'']
         = mset [''Trim the first 5 seconds'', '' convert to black and white'',
                 '' speed up to 1.2x'', '' and mute the audio.'']
      \<and> distinct (map rank (extractAll examplePatterns
            (toLowerCase (join '','' [''Trim the first 5 seconds'', '' convert to black and white'',
                 '' speed up to 1.2x'', '' and mute the audio.'']))))"
    using extract_default by (simp add: examplePatterns_bound defaultPrompt_def)
  with canonical_order [where ms = examplePatterns and prompt = defaultPrompt
      and clauses = "[''Trim the first 5 seconds'', '' convert to black and white'',
                 '' speed up to 1.2x'', '' and mute the audio.'']"
      and clauses' = "['' and mute the audio.'', '' speed up to 1.2x'',
                 '' convert to black and white'', ''Trim the first 5 seconds'']"
      and c = atempoChain and inputName = "''input.mp4''" and outputName = "''output.mp4''"]
    plan_default
  show ?thesis
    by (simp add: defaultPrompt_def lowerOp_videoFilters initial_sel ptsScale_def toFixed_eval
        del: lowerOp.simps)
qed

end
